theory Spec2Isabelle
  imports Complex_Main
begin

section \<open>The S3 handler (s3\_handler.py)\<close>

subsection \<open>Python values the handler works with\<close>

text \<open>
  Exceptions that leave a method are values of \<open>py_error\<close>. A \<open>ValueError\<close> carries its
  message, since two different ones are raised by the handler.
\<close>

datatype py_error =
    ValueError string
  | TypeError
  | AttributeError
  | IndexError
  | KeyError string
  | ClientError string

text \<open>\<open>str.replace(old, new)\<close> for one-character \<open>old\<close> and \<open>new\<close>, as the handler calls it.\<close>

definition replace_chr :: "char \<Rightarrow> char \<Rightarrow> string \<Rightarrow> string" where
  "replace_chr old new s = map (\<lambda>c. if c = old then new else c) s"

text \<open>\<open>str.endswith(suffix)\<close>.\<close>

definition endswith :: "string \<Rightarrow> string \<Rightarrow> bool" where
  "endswith s suf = (length suf \<le> length s \<and> drop (length s - length suf) s = suf)"

text \<open>\<open>s.split('.')[-1]\<close>: the characters after the last period, the whole string when
  there is none.\<close>

definition last_segment :: "string \<Rightarrow> string" where
  "last_segment s = rev (takeWhile (\<lambda>c. c \<noteq> CHR ''.'') (rev s))"

text \<open>A dict with string keys, in insertion order; \<open>key in d\<close> and \<open>d[key]\<close>.\<close>

type_synonym py_dict = "(string \<times> string) list"

definition has_key :: "py_dict \<Rightarrow> string \<Rightarrow> bool" where
  "has_key d k = (k \<in> set (map fst d))"

subsection \<open>The AST the handler receives (mindsdb\_sql)\<close>

datatype ident = Identifier (id_parts: "string list") (id_alias: "ident option")

text \<open>
  A target of a SELECT is \<open>Star\<close>, an \<open>Identifier\<close>, or another expression (a constant, a
  function call, ...), which has an alias but no \<open>parts\<close>. The FROM clause is an
  identifier or another node (a join, a subquery).
\<close>

datatype target = Star | TIdent ident | TOther "ident option"

datatype from_node = FIdent ident | FOther

record select_q =
  targets :: "target list"
  from_table :: "from_node option"
  rest :: string

datatype ast_node = Select select_q | Insert | Update | Delete | OtherNode string

datatype file_header_info = USE | NONE

datatype input_serialization = CSV file_header_info | JSON | Parquet

datatype 'df response = TableResponse 'df | ErrorResponse string

subsection \<open>What the handler does not define\<close>

text \<open>
  boto3, pandas and the methods of mindsdb\_sql are not part of the handler: they are
  parameters. \<open>boto3_client\<close> builds a client from its keyword arguments;
  \<open>select_object_content\<close> takes the client, the bucket, the key, the expression and the
  input serialization and returns the decoded payload of the \<open>Records\<close> events, or the text
  of the exception it raised; \<open>read_csv\<close> parses it under the given column names;
  \<open>list_objects\<close> returns the keys of the bucket's \<open>Contents\<close>; \<open>get_string\<close> and
  \<open>to_string\<close> render an identifier and a query.
\<close>

record ('c, 'df) s3_env =
  boto3_client :: "py_dict \<Rightarrow> py_error + 'c"
  select_object_content ::
    "'c \<Rightarrow> string \<Rightarrow> string \<Rightarrow> string \<Rightarrow> input_serialization \<Rightarrow> string + string"
  read_csv :: "string \<Rightarrow> string list option \<Rightarrow> string + 'df"
  list_objects :: "'c \<Rightarrow> string \<Rightarrow> py_error + string list"
  get_string :: "ident \<Rightarrow> string"
  to_string :: "select_q \<Rightarrow> string"

subsection \<open>The handler's state and methods\<close>

record 'c handler =
  connection_data :: "py_dict option"
  table_name :: "string option"
  column_names :: "string list"
  connection :: "'c option"
  is_connected :: bool

definition init_handler :: "py_dict option \<Rightarrow> 'c handler" where
  "init_handler cd =
     \<lparr>connection_data = cd, table_name = None, column_names = [],
      connection = None, is_connected = False\<rparr>"

text \<open>
  A method returns what it returns or raises, and the handler as it has left it: an
  exception does not undo the assignments made before it.
\<close>

definition required_params :: "string list" where
  "required_params = [''aws_access_key_id'', ''aws_secret_access_key'', ''bucket'']"

definition optional_params :: "string list" where
  "optional_params = [''aws_session_token'', ''region_name'']"

definition required_msg :: string where
  "required_msg =
     ''Required parameters (aws_access_key_id, aws_secret_access_key, bucket) must be provided.''"

definition connect_config :: "py_dict \<Rightarrow> py_dict" where
  "connect_config cd =
     [(''aws_access_key_id'', the (map_of cd ''aws_access_key_id'')),
      (''aws_secret_access_key'', the (map_of cd ''aws_secret_access_key''))]
     @ concat (map (\<lambda>p. case map_of cd p of None \<Rightarrow> [] | Some v \<Rightarrow> [(p, v)]) optional_params)"

definition connect ::
  "('c, 'df) s3_env \<Rightarrow> 'c handler \<Rightarrow> (py_error + 'c option) \<times> 'c handler" where
  "connect env h =
     (if is_connected h then (Inr (connection h), h)
      else case connection_data h of
        None \<Rightarrow> (Inl TypeError, h)
      | Some cd \<Rightarrow>
          if \<not> list_all (has_key cd) required_params then (Inl (ValueError required_msg), h)
          else case boto3_client env (connect_config cd) of
            Inl e \<Rightarrow> (Inl e, h)
          | Inr c \<Rightarrow> (Inr (Some c), h\<lparr>connection := Some c, is_connected := True\<rparr>))"

definition disconnect :: "'c handler \<Rightarrow> 'c handler" where
  "disconnect h = h\<lparr>is_connected := False\<rparr>"

definition extension_msg :: string where
  "extension_msg = ''The Key should have one of the following extensions: .csv, .json, .parquet''"

text \<open>The object key that \<open>native_query\<close> derives from the table name.\<close>

definition object_key :: "string \<Rightarrow> string" where
  "object_key t = replace_chr CHR ''_'' CHR ''.'' t"

text \<open>The text of an exception that names something between apostrophes.\<close>

definition quoted :: "string \<Rightarrow> string" where
  "quoted s = CHR 0x27 # s @ [CHR 0x27]"

definition no_attribute_msg :: string where
  "no_attribute_msg =
     quoted ''NoneType'' @ '' object has no attribute '' @ quoted ''select_object_content''"

definition not_subscriptable_msg :: string where
  "not_subscriptable_msg = quoted ''NoneType'' @ '' object is not subscriptable''"

text \<open>
  The \<open>except\<close> block of \<open>native_query\<close>. It logs a message that reads
  \<open>self.connection_data["bucket"]\<close>: the subscript raises \<open>TypeError\<close> when there is no
  connection data and \<open>KeyError\<close> when it has no bucket, and that exception leaves the
  method. Otherwise the caught exception becomes an error response.
\<close>

definition on_exception :: "'c handler \<Rightarrow> string \<Rightarrow> py_error + 'df response" where
  "on_exception h msg =
     (case connection_data h of
        None \<Rightarrow> Inl TypeError
      | Some cd \<Rightarrow>
          (case map_of cd ''bucket'' of
             None \<Rightarrow> Inl (KeyError ''bucket'')
           | Some b \<Rightarrow> Inr (ErrorResponse msg)))"

text \<open>
  The \<open>try\<close> of \<open>native_query\<close> with its \<open>except\<close> block. In the call of
  \<open>select_object_content\<close> the attribute of the connection is looked up first, then
  \<open>self.connection_data['bucket']\<close> is evaluated; every exception raised in the \<open>try\<close> is
  caught and handled by the \<open>except\<close> block.
\<close>

definition fetch ::
  "('c, 'df) s3_env \<Rightarrow> 'c handler \<Rightarrow> 'c option \<Rightarrow> string \<Rightarrow> string \<Rightarrow> input_serialization
     \<Rightarrow> py_error + 'df response" where
  "fetch env h conn key query ser =
     (case conn of
        None \<Rightarrow> on_exception h no_attribute_msg
      | Some c \<Rightarrow>
          (case connection_data h of
             None \<Rightarrow> on_exception h not_subscriptable_msg
           | Some cd \<Rightarrow>
               (case map_of cd ''bucket'' of
                  None \<Rightarrow> on_exception h (quoted ''bucket'')
                | Some b \<Rightarrow>
                    (case select_object_content env c b key query ser of
                       Inl e \<Rightarrow> on_exception h e
                     | Inr file_str \<Rightarrow>
                         (case read_csv env file_str
                                 (if column_names h \<noteq> [] then Some (column_names h) else None) of
                            Inl e \<Rightarrow> on_exception h e
                          | Inr df \<Rightarrow> Inr (TableResponse df))))))"

definition native_query ::
  "('c, 'df) s3_env \<Rightarrow> 'c handler \<Rightarrow> string \<Rightarrow> (py_error + 'df response) \<times> 'c handler" where
  "native_query env h query =
     (let need_to_close = \<not> is_connected h in
      case connect env h of
        (Inl e, h1) \<Rightarrow> (Inl e, h1)
      | (Inr conn, h1) \<Rightarrow>
          (case table_name h1 of
             None \<Rightarrow> (Inl AttributeError, h1)
           | Some t \<Rightarrow>
               let key = object_key t;
                   finish = (\<lambda>ser. case fetch env h1 conn key query ser of
                                     Inl e \<Rightarrow> (Inl e, h1)
                                   | Inr r \<Rightarrow> (Inr r, if need_to_close then disconnect h1 else h1))
               in if endswith key ''.csv''
                    then finish (CSV (if column_names h1 \<noteq> [] then USE else NONE))
                  else if endswith key ''.json'' then finish JSON
                  else if endswith key ''.parquet'' then finish Parquet
                  else (Inl (ValueError extension_msg), h1)))"

text \<open>
  The loop of \<open>query\<close> over the targets: it appends to \<open>column_names\<close> and prefixes a
  one-part target with \<open>s\<close>. \<open>target.alias.get_string()\<close> raises when the target has no
  alias, \<open>target.parts\<close> when the target is not an identifier, and \<open>target.parts[-1]\<close> when
  there are no parts and the alias renders as the empty string.
\<close>

fun scan_targets ::
  "('c, 'df) s3_env \<Rightarrow> target list \<Rightarrow> string list \<Rightarrow> py_error option \<times> target list \<times> string list"
  where
  "scan_targets env [] cols = (None, [], cols)"
| "scan_targets env (TIdent (Identifier ps al) # ts) cols =
     (case al of
        None \<Rightarrow> (Some AttributeError, TIdent (Identifier ps al) # ts, cols)
      | Some a \<Rightarrow>
          if length ps = 1 then
            (case scan_targets env ts
                    (cols @ [if get_string env a \<noteq> [] then get_string env a else hd ps]) of
               (r, ts', cols') \<Rightarrow> (r, TIdent (Identifier (''s'' # ps) al) # ts', cols'))
          else if get_string env a = [] \<and> ps = [] then
            (Some IndexError, TIdent (Identifier ps al) # ts, cols)
          else
            (case scan_targets env ts
                    (cols @ [if get_string env a \<noteq> [] then get_string env a else last ps]) of
               (r, ts', cols') \<Rightarrow> (r, TIdent (Identifier ps al) # ts', cols')))"
| "scan_targets env (t # ts) cols = (Some AttributeError, t # ts, cols)"

definition only_select_msg :: string where
  "only_select_msg = ''Only SELECT queries are supported.''"

definition query ::
  "('c, 'df) s3_env \<Rightarrow> 'c handler \<Rightarrow> ast_node \<Rightarrow> (py_error + 'df response) \<times> 'c handler" where
  "query env h node =
     (case node of
        Select q \<Rightarrow>
          (case from_table q of
             None \<Rightarrow> (Inl AttributeError, h)
           | Some FOther \<Rightarrow> (Inl AttributeError, h)
           | Some (FIdent (Identifier ps al)) \<Rightarrow>
               (case ps of
                  [] \<Rightarrow> (Inl IndexError, h)
                | p # _ \<Rightarrow>
                    let h1 = h\<lparr>table_name := Some p\<rparr>;
                        q1 = q\<lparr>from_table := Some (FIdent (Identifier [''S3Object'']
                               (Some (Identifier
                                  [case al of Some a \<Rightarrow> get_string env a | None \<Rightarrow> ''s''] None))))\<rparr>
                    in (case targets q1 of
                          [] \<Rightarrow> (Inl IndexError, h1)
                        | Star # _ \<Rightarrow> native_query env h1 (to_string env q1)
                        | _ \<Rightarrow>
                            (case scan_targets env (targets q1) (column_names h1) of
                               (Some e, ts', cols') \<Rightarrow> (Inl e, h1\<lparr>column_names := cols'\<rparr>)
                             | (None, ts', cols') \<Rightarrow>
                                 native_query env (h1\<lparr>column_names := cols'\<rparr>)
                                   (to_string env (q1\<lparr>targets := ts'\<rparr>))))))
      | _ \<Rightarrow> (Inl (ValueError only_select_msg), h))"

definition supported_extensions :: "string list" where
  "supported_extensions = [''csv'', ''json'', ''parquet'']"

text \<open>The table name that \<open>get_tables\<close> derives from an object key.\<close>

definition table_of_key :: "string \<Rightarrow> string" where
  "table_of_key k = replace_chr CHR ''.'' CHR ''_'' k"

definition supported_objects :: "string list \<Rightarrow> string list" where
  "supported_objects keys =
     map table_of_key (filter (\<lambda>k. last_segment k \<in> set supported_extensions) keys)"

definition get_tables ::
  "('c, 'df) s3_env \<Rightarrow> 'c handler \<Rightarrow> (py_error + string list response) \<times> 'c handler" where
  "get_tables env h =
     (case connect env h of
        (Inl e, h1) \<Rightarrow> (Inl e, h1)
      | (Inr None, h1) \<Rightarrow> (Inl AttributeError, h1)
      | (Inr (Some c), h1) \<Rightarrow>
          (case connection_data h1 of
             None \<Rightarrow> (Inl TypeError, h1)
           | Some cd \<Rightarrow>
               (case map_of cd ''bucket'' of
                  None \<Rightarrow> (Inl (KeyError ''bucket''), h1)
                | Some b \<Rightarrow>
                    (case list_objects env c b of
                       Inl e \<Rightarrow> (Inl e, h1)
                     | Inr keys \<Rightarrow> (Inr (TableResponse (supported_objects keys)), h1)))))"

subsection \<open>A concrete bucket\<close>

text \<open>
  An environment whose client is a number, whose bucket holds three objects and whose
  \<open>select_object_content\<close> echoes the key it was asked for; and a handler with the three
  mandatory connection parameters and a given table name.
\<close>

definition demo_env :: "(nat, string) s3_env" where
  "demo_env =
     \<lparr>boto3_client = (\<lambda>cfg. Inr 0),
      select_object_content = (\<lambda>c b k e ser. Inr k),
      read_csv = (\<lambda>s names. Inr s),
      list_objects = (\<lambda>c b. Inr [''data.csv'', ''notes.txt'', ''my_data.json'']),
      get_string = (\<lambda>i. concat (id_parts i)),
      to_string = (\<lambda>q. ''SELECT * FROM S3Object AS s'')\<rparr>"

definition demo_handler :: "string option \<Rightarrow> nat handler" where
  "demo_handler t =
     (init_handler (Some [(''aws_access_key_id'', ''k''), (''aws_secret_access_key'', ''s''),
                          (''bucket'', ''b'')]))\<lparr>table_name := t\<rparr>"

section \<open>The model version manager\<close>

text \<open>
  The sources hold the test of the version manager (\<open>test_version_managing\<close>) and not the
  manager. The definitions of this section follow sections 3, 4.1, 4.2 and 4.3 of the
  specification; they model the version state machine of one model \<open>(project, name)\<close>, of
  which the manager keeps one per model.
\<close>

datatype status = Generating | Complete | Error

datatype mgr_error = EntityNotExistsError | OperationForbiddenError | ModelNotReadyError

text \<open>
  Modelled from the spec: the \<open>ModelVersion\<close> record, which is not in the sources.
  Section 3 gives \<open>version\<close>, \<open>status\<close>, \<open>predictTarget\<close>, \<open>tag\<close>, \<open>trainingQuery\<close> and
  \<open>createdAt\<close>. The target and the tag are optional here because \<open>params\<close> may omit them.
  \<open>active\<close> is the mark of sections 3 and 8 ("marked active", "has active=true");
  \<open>deleted\<close> is the soft deletion of section 4.1 ("the version is soft-deleted"), so a
  deleted version stays in the model's list; \<open>activate_on_complete\<close> remembers, until
  training finishes, whether the version was requested with \<open>active = false\<close>.
\<close>

record model_version =
  version :: nat
  status :: status
  predict_target :: "string option"
  tag :: "string option"
  training_query :: "string option"
  created_at :: nat
  active :: bool
  deleted :: bool
  activate_on_complete :: bool

text \<open>
  Modelled from the spec: the \<open>params\<close> of \<open>createVersion\<close> and \<open>retrain\<close> (section 4.3),
  each of which the caller may omit.
\<close>

record params =
  p_target :: "string option"
  p_tag :: "string option"
  p_query :: "string option"
  p_active :: "bool option"

text \<open>Modelled from the spec: the \<open>Model\<close> of section 3, as the list of its versions in
  the order of their creation.\<close>

record model =
  versions :: "model_version list"

definition empty_model :: model where
  "empty_model = \<lparr>versions = []\<rparr>"

definition live :: "model_version \<Rightarrow> bool" where
  "live v = (\<not> deleted v)"

text \<open>
  Modelled from the spec: \<open>activeVersionId\<close> (section 3), the number of the non-deleted
  version that is marked active, null when there is none.
\<close>

definition active_version :: "model \<Rightarrow> model_version option" where
  "active_version m = find (\<lambda>v. active v \<and> live v) (versions m)"

definition active_version_id :: "model \<Rightarrow> nat option" where
  "active_version_id m = map_option version (active_version m)"

definition find_version :: "nat \<Rightarrow> model \<Rightarrow> model_version option" where
  "find_version n m = find (\<lambda>v. version v = n \<and> live v) (versions m)"

text \<open>
  Modelled from the spec: the allocation of \<open>createVersion\<close> (section 4.3), "next version
  number = max existing + 1 (starting at 1)". The maximum runs over every version the model
  has had, the soft-deleted ones too, as section 8 asks ("including deleted").
\<close>

definition next_version :: "model \<Rightarrow> nat" where
  "next_version m = fold max (map version (versions m)) 0 + 1"

text \<open>
  Modelled from the spec: \<open>createVersion(project, name, params)\<close> of section 4.3. The new
  version has status \<open>generating\<close> and is not active; the call returns its number at once.
\<close>

definition create_version :: "nat \<Rightarrow> params \<Rightarrow> model \<Rightarrow> nat \<times> model" where
  "create_version now p m =
     (let n = next_version m;
          v = \<lparr>version = n, status = Generating, predict_target = p_target p, tag = p_tag p,
               training_query = p_query p, created_at = now, active = False, deleted = False,
               activate_on_complete = (p_active p \<noteq> Some False)\<rparr>
      in (n, m\<lparr>versions := versions m @ [v]\<rparr>))"

text \<open>
  Modelled from the spec: \<open>retrain(project, name, params)\<close> of section 4.3, "same as create
  but source-target/tag default from the active version's corresponding fields when params
  omits them".
\<close>

definition or_else :: "'a option \<Rightarrow> 'a option \<Rightarrow> 'a option" where
  "or_else x y = (case x of Some a \<Rightarrow> Some a | None \<Rightarrow> y)"

definition retrain :: "nat \<Rightarrow> params \<Rightarrow> model \<Rightarrow> nat \<times> model" where
  "retrain now p m =
     (case active_version m of
        None \<Rightarrow> create_version now p m
      | Some a \<Rightarrow>
          create_version now
            (p\<lparr>p_target := or_else (p_target p) (predict_target a),
               p_tag := or_else (p_tag p) (tag a),
               p_query := or_else (p_query p) (training_query a)\<rparr>) m)"

text \<open>
  Modelled from the spec: the single assignment of \<open>activate\<close> (section 4.3): the version
  \<open>n\<close> is marked active and every other version is unmarked, in one step.
\<close>

definition set_active :: "nat \<Rightarrow> model \<Rightarrow> model" where
  "set_active n m =
     m\<lparr>versions := map (\<lambda>v. v\<lparr>active := (version v = n \<and> live v)\<rparr>) (versions m)\<rparr>"

text \<open>
  Modelled from the spec: the asynchronous end of training (sections 3, 4.3 and 6), which
  flips the status of a \<open>generating\<close> version to \<open>complete\<close> or \<open>error\<close>. On \<open>complete\<close> the
  version becomes active unless it was requested with \<open>active = false\<close> (sections 4.3 and
  8). The spec gives the state machine no transition out of \<open>complete\<close> or \<open>error\<close>.
\<close>

definition finish_training :: "nat \<Rightarrow> bool \<Rightarrow> model \<Rightarrow> mgr_error + model" where
  "finish_training n ok m =
     (case find_version n m of
        None \<Rightarrow> Inl EntityNotExistsError
      | Some v \<Rightarrow>
          if status v \<noteq> Generating then Inl OperationForbiddenError
          else
            let m1 = m\<lparr>versions := map (\<lambda>x. if version x = n \<and> live x
                                                then x\<lparr>status := (if ok then Complete else Error)\<rparr>
                                                else x) (versions m)\<rparr>
            in Inr (if ok \<and> activate_on_complete v then set_active n m1 else m1))"

text \<open>Modelled from the spec: \<open>activate(project, name, version)\<close> of section 4.3.\<close>

definition activate :: "nat \<Rightarrow> model \<Rightarrow> mgr_error + model" where
  "activate n m =
     (case find_version n m of
        None \<Rightarrow> Inl EntityNotExistsError
      | Some v \<Rightarrow> Inr (set_active n m))"

text \<open>
  Modelled from the spec: \<open>delete(project, name, version)\<close> of section 4.3, with its two
  checks in the order the spec gives them. The deletion is the soft deletion of
  section 4.1.
\<close>

definition delete_version :: "nat \<Rightarrow> model \<Rightarrow> mgr_error + model" where
  "delete_version n m =
     (if active_version_id m = Some n then Inl OperationForbiddenError
      else case find_version n m of
        None \<Rightarrow> Inl EntityNotExistsError
      | Some v \<Rightarrow>
          Inr (m\<lparr>versions := map (\<lambda>x. if version x = n then x\<lparr>deleted := True\<rparr> else x)
                                 (versions m)\<rparr>))"

text \<open>
  Modelled from the spec: \<open>resolve(identifier, explicitVersion?)\<close> of section 4.1 for a
  model name: the explicit version if given, else the active one; and the check of
  section 4.2 that a queried version is \<open>complete\<close>.
\<close>

definition resolve :: "nat option \<Rightarrow> model \<Rightarrow> mgr_error + model_version" where
  "resolve explicit m =
     (case or_else explicit (active_version_id m) of
        None \<Rightarrow> Inl EntityNotExistsError
      | Some n \<Rightarrow>
          (case find_version n m of
             None \<Rightarrow> Inl EntityNotExistsError
           | Some v \<Rightarrow> Inr v))"

definition query_model :: "nat option \<Rightarrow> model \<Rightarrow> mgr_error + model_version" where
  "query_model explicit m =
     (case resolve explicit m of
        Inl e \<Rightarrow> Inl e
      | Inr v \<Rightarrow> if status v = Complete then Inr v else Inl ModelNotReadyError)"

text \<open>
  The operations as a state machine. An operation that fails leaves the model as it was
  (section 7: errors are surfaced to the caller and not retried).
\<close>

datatype op =
    Create nat params
  | Retrain nat params
  | Finish nat bool
  | Activate nat
  | Delete nat

fun step :: "op \<Rightarrow> model \<Rightarrow> mgr_error + model" where
  "step (Create now p) m = Inr (snd (create_version now p m))"
| "step (Retrain now p) m = Inr (snd (retrain now p m))"
| "step (Finish n ok) m = finish_training n ok m"
| "step (Activate n) m = activate n m"
| "step (Delete n) m = delete_version n m"

definition exec :: "op \<Rightarrow> model \<Rightarrow> model" where
  "exec c m = (case step c m of Inl e \<Rightarrow> m | Inr m' \<Rightarrow> m')"

definition run :: "op list \<Rightarrow> model \<Rightarrow> model" where
  "run cs m = fold exec cs m"

text \<open>The version numbers that a sequence of operations allocates, in order.\<close>

fun allocated :: "op list \<Rightarrow> model \<Rightarrow> nat list" where
  "allocated [] m = []"
| "allocated (Create now p # cs) m = next_version m # allocated cs (exec (Create now p) m)"
| "allocated (Retrain now p # cs) m = next_version m # allocated cs (exec (Retrain now p) m)"
| "allocated (c # cs) m = allocated cs (exec c m)"

text \<open>The invariant of sections 3 and 8.\<close>

definition at_most_one_active :: "model \<Rightarrow> bool" where
  "at_most_one_active m = (length (filter (\<lambda>v. active v \<and> live v) (versions m)) \<le> 1)"

text \<open>The second half of the invariant of section 3, as it is stated: a successful
  operation that changes the active version is an activation.\<close>

definition changes_only_by_activate :: "op \<Rightarrow> model \<Rightarrow> bool" where
  "changes_only_by_activate c m =
     (case step c m of
        Inl e \<Rightarrow> True
      | Inr m' \<Rightarrow> active_version_id m' = active_version_id m \<or> (case c of Activate n \<Rightarrow> True | _ \<Rightarrow> False))"

text \<open>The scenario of \<open>test_version_managing\<close>, lines 79 to 152.\<close>

definition tag_params :: "string \<Rightarrow> string \<Rightarrow> bool option \<Rightarrow> params" where
  "tag_params tgt t a =
     \<lparr>p_target = Some tgt, p_tag = Some t, p_query = Some ''select * from tasks'', p_active = a\<rparr>"

definition scenario_ops :: "op list" where
  "scenario_ops =
     [Create 0 (tag_params ''a'' ''first'' None), Finish 1 True,
      Retrain 1 (tag_params ''b'' ''second'' None), Finish 2 True,
      Retrain 2 (tag_params ''a'' ''third'' (Some False)), Finish 3 True]"

text \<open>The operations that allocate a version number.\<close>

fun allocating :: "op \<Rightarrow> bool" where
  "allocating (Create now p) = True"
| "allocating (Retrain now p) = True"
| "allocating c = False"

text \<open>The operations of \<open>test_version_managing\<close>, lines 236 to 291, after the scenario.\<close>

definition no_params :: params where
  "no_params = \<lparr>p_target = None, p_tag = None, p_query = None, p_active = None\<rparr>"

definition managing_ops :: "op list" where
  "managing_ops = scenario_ops @ [Activate 1, Delete 2, Delete 1, Delete 11, Retrain 3 no_params]"

text \<open>
  The invariant the operations keep: the version numbers of a model are distinct and at
  most one non-deleted version is marked active.
\<close>

definition wf_model :: "model \<Rightarrow> bool" where
  "wf_model m = (distinct (map version (versions m)) \<and> at_most_one_active m)"

text \<open>
  The operations that the spec lets change the active version: an explicit activation, and
  the successful end of the training of a version that was not requested with
  \<open>active = false\<close>.
\<close>

definition activating :: "op \<Rightarrow> model \<Rightarrow> bool" where
  "activating c m =
     (case c of
        Activate n \<Rightarrow> True
      | Finish n ok \<Rightarrow>
          ok \<and> (case find_version n m of
                  Some v \<Rightarrow> status v = Generating \<and> activate_on_complete v
                | None \<Rightarrow> False)
      | _ \<Rightarrow> False)"

section \<open>Properties of the S3 handler\<close>

lemma connect_table_name: "connect env h = (r, h1) \<Longrightarrow> table_name h1 = table_name h"
  by (auto simp: connect_def split: if_splits option.splits sum.splits)

lemma connect_column_names: "connect env h = (r, h1) \<Longrightarrow> column_names h1 = column_names h"
  by (auto simp: connect_def split: if_splits option.splits sum.splits)

lemma connect_demo:
  "connect demo_env (demo_handler t) =
     (Inr (Some 0), (demo_handler t)\<lparr>connection := Some 0, is_connected := True\<rparr>)"
  by (simp add: connect_def demo_env_def demo_handler_def init_handler_def required_params_def
      has_key_def connect_config_def)

lemma table_name_demo: "table_name (demo_handler t) = t"
  by (simp add: demo_handler_def init_handler_def)

lemma fetch_not_value_error: "fetch env h conn key q ser \<noteq> Inl (ValueError msg)"
  by (auto simp: fetch_def on_exception_def split: option.splits sum.splits)

text \<open>
  C8. Once the connection is there and a table name is set, \<open>native_query\<close> derives the
  object key from the table name. When the key ends in none of \<open>.csv\<close>, \<open>.json\<close> and
  \<open>.parquet\<close>, the method raises the \<open>ValueError\<close> that names the three extensions, and
  the result does not depend on \<open>select_object_content\<close>: nothing is fetched. When the key
  ends in one of them, the outcome of the method is the outcome of the fetch under some
  input serialization (a response, or the exception that leaves the \<open>except\<close> block), and
  it is never the \<open>ValueError\<close> that names the extensions.
\<close>

theorem native_query_extension:
  assumes "connect env h = (Inr conn, h1)" and "table_name h = Some t"
  shows "(\<not> endswith (object_key t) ''.csv'' \<and> \<not> endswith (object_key t) ''.json''
            \<and> \<not> endswith (object_key t) ''.parquet''
          \<longrightarrow> native_query env h q =
                (Inl (ValueError
                   ''The Key should have one of the following extensions: .csv, .json, .parquet''),
                 h1))
       \<and> (endswith (object_key t) ''.csv'' \<or> endswith (object_key t) ''.json''
            \<or> endswith (object_key t) ''.parquet''
          \<longrightarrow> (\<exists>ser. native_query env h q =
                  (case fetch env h1 conn (object_key t) q ser of
                     Inl e \<Rightarrow> (Inl e, h1)
                   | Inr r \<Rightarrow> (Inr r, if is_connected h then h1 else disconnect h1)))
              \<and> fst (native_query env h q) \<noteq>
                  Inl (ValueError
                    ''The Key should have one of the following extensions: .csv, .json, .parquet''))"
proof -
  let ?msg = "''The Key should have one of the following extensions: .csv, .json, .parquet''"
  let ?out = "\<lambda>ser. case fetch env h1 conn (object_key t) q ser of
                     Inl e \<Rightarrow> (Inl e, h1)
                   | Inr r \<Rightarrow> (Inr r, if is_connected h then h1 else disconnect h1)"
  have t1: "table_name h1 = Some t"
    using assms connect_table_name by metis
  have unsupported:
    "\<not> endswith (object_key t) ''.csv'' \<and> \<not> endswith (object_key t) ''.json''
       \<and> \<not> endswith (object_key t) ''.parquet''
     \<longrightarrow> native_query env h q = (Inl (ValueError ?msg), h1)"
    using assms(1) t1 by (simp add: native_query_def Let_def extension_msg_def)
  have supported: "\<exists>ser. native_query env h q = ?out ser"
    if "endswith (object_key t) ''.csv'' \<or> endswith (object_key t) ''.json''
          \<or> endswith (object_key t) ''.parquet''"
  proof (cases "endswith (object_key t) ''.csv''")
    case True
    then have "native_query env h q = ?out (CSV (if column_names h1 \<noteq> [] then USE else NONE))"
      using assms(1) t1 by (simp add: native_query_def Let_def)
    then show ?thesis by (rule exI)
  next
    case csv: False
    show ?thesis
    proof (cases "endswith (object_key t) ''.json''")
      case True
      then have "native_query env h q = ?out JSON"
        using assms(1) t1 csv by (simp add: native_query_def Let_def)
      then show ?thesis by (rule exI)
    next
      case False
      with csv that have "endswith (object_key t) ''.parquet''" by simp
      then have "native_query env h q = ?out Parquet"
        using assms(1) t1 csv False by (simp add: native_query_def Let_def)
      then show ?thesis by (rule exI)
    qed
  qed
  have not_ext: "fst (native_query env h q) \<noteq> Inl (ValueError ?msg)"
    if "endswith (object_key t) ''.csv'' \<or> endswith (object_key t) ''.json''
          \<or> endswith (object_key t) ''.parquet''"
  proof -
    from supported [OF that] obtain ser where n: "native_query env h q = ?out ser" ..
    show ?thesis
    proof (cases "fetch env h1 conn (object_key t) q ser")
      case (Inl e)
      then have "e \<noteq> ValueError ?msg"
        using fetch_not_value_error [of env h1 conn "object_key t" q ser ?msg] by auto
      with n Inl show ?thesis by simp
    next
      case (Inr r)
      with n show ?thesis by simp
    qed
  qed
  from unsupported supported not_ext show ?thesis by blast
qed

theorem native_query_extension_witness:
  "native_query demo_env (demo_handler (Some ''notes_txt'')) ''SELECT * FROM S3Object AS s'' =
     (Inl (ValueError
        ''The Key should have one of the following extensions: .csv, .json, .parquet''),
      (demo_handler (Some ''notes_txt''))\<lparr>connection := Some 0, is_connected := True\<rparr>)
   \<and> fst (native_query demo_env (demo_handler (Some ''data_csv''))
             ''SELECT * FROM S3Object AS s'') \<noteq>
       Inl (ValueError
         ''The Key should have one of the following extensions: .csv, .json, .parquet'')"
proof -
  have k1: "object_key ''notes_txt'' = ''notes.txt''" and k2: "object_key ''data_csv'' = ''data.csv''"
    by (simp_all add: object_key_def replace_chr_def)
  show ?thesis
    using native_query_extension [OF connect_demo table_name_demo,
            of "''notes_txt''" "''SELECT * FROM S3Object AS s''"]
          native_query_extension [OF connect_demo table_name_demo,
            of "''data_csv''" "''SELECT * FROM S3Object AS s''"]
    by (simp add: k1 k2 endswith_def)
qed

text \<open>
  The \<open>except\<close> block at work: a connected handler whose connection data has no
  \<open>bucket\<close> raises \<open>KeyError\<close> out of \<open>native_query\<close>, and stays connected; one without
  connection data raises \<open>TypeError\<close>.
\<close>

lemma native_query_no_bucket:
  "native_query demo_env
     \<lparr>connection_data = Some [], table_name = Some ''data_csv'', column_names = [],
      connection = Some 0, is_connected = True\<rparr> q =
   (Inl (KeyError ''bucket''),
    \<lparr>connection_data = Some [], table_name = Some ''data_csv'', column_names = [],
     connection = Some 0, is_connected = True\<rparr>)"
  by (simp add: native_query_def connect_def fetch_def on_exception_def object_key_def
      replace_chr_def endswith_def)

lemma native_query_no_connection_data:
  "native_query demo_env
     \<lparr>connection_data = None, table_name = Some ''data_csv'', column_names = [],
      connection = Some 0, is_connected = True\<rparr> q =
   (Inl TypeError,
    \<lparr>connection_data = None, table_name = Some ''data_csv'', column_names = [],
     connection = Some 0, is_connected = True\<rparr>)"
  by (simp add: native_query_def connect_def fetch_def on_exception_def object_key_def
      replace_chr_def endswith_def)

text \<open>
  C9. \<open>get_tables\<close> turns a key into a table name by replacing each period with an
  underscore, and \<open>native_query\<close> turns the table name back into a key by replacing each
  underscore with a period. The round trip returns the original key when the key has no
  underscore, and a different key when it has one.
\<close>

theorem key_round_trip:
  "(CHR ''_'' \<notin> set k \<longrightarrow> object_key (table_of_key k) = k)
   \<and> (CHR ''_'' \<in> set k \<longrightarrow> object_key (table_of_key k) \<noteq> k)"
proof (intro conjI impI)
  assume "CHR ''_'' \<notin> set k"
  then show "object_key (table_of_key k) = k"
    by (induction k) (auto simp: object_key_def table_of_key_def replace_chr_def)
next
  assume a: "CHR ''_'' \<in> set k"
  have "CHR ''_'' \<notin> set (object_key t)" for t
    by (auto simp: object_key_def replace_chr_def)
  with a show "object_key (table_of_key k) \<noteq> k" by metis
qed

theorem key_round_trip_witness:
  "CHR ''_'' \<notin> set ''data.csv'' \<and> object_key (table_of_key ''data.csv'') = ''data.csv''
   \<and> CHR ''_'' \<in> set ''my_data.json''
   \<and> object_key (table_of_key ''my_data.json'') \<noteq> ''my_data.json''"
  using key_round_trip [of "''data.csv''"] key_round_trip [of "''my_data.json''"]
  by simp

text \<open>
  C10. For a node that is not a \<open>Select\<close>, \<open>query\<close> raises the \<open>ValueError\<close> "Only SELECT
  queries are supported." and leaves the handler as it was: no connection is made, and
  \<open>table_name\<close> and \<open>column_names\<close> keep their values.
\<close>

theorem query_not_select:
  "(\<forall>q. node \<noteq> Select q) \<Longrightarrow>
     query env h node = (Inl (ValueError ''Only SELECT queries are supported.''), h)"
  by (cases node) (simp_all add: query_def only_select_msg_def)

theorem query_not_select_witness:
  "query demo_env (demo_handler None) Insert =
     (Inl (ValueError ''Only SELECT queries are supported.''), demo_handler None)"
  using query_not_select [of Insert demo_env "demo_handler None"] by simp

section \<open>Properties of the model version manager\<close>

subsection \<open>Version numbers\<close>

lemma fold_max_ge_init: "(a::nat) \<le> fold max xs a"
  by (induction xs arbitrary: a) (auto intro: order_trans [OF max.cobounded2])

lemma fold_max_ge_elem: "x \<in> set xs \<Longrightarrow> (x::nat) \<le> fold max xs a"
proof (induction xs arbitrary: a)
  case Nil
  then show ?case by simp
next
  case (Cons y ys)
  show ?case
  proof (cases "x = y")
    case True
    have "y \<le> max y a" by simp
    also have "\<dots> \<le> fold max ys (max y a)" by (rule fold_max_ge_init)
    finally show ?thesis using True by simp
  next
    case False
    with Cons show ?thesis by simp
  qed
qed

lemma next_version_gt: "v \<in> set (versions m) \<Longrightarrow> version v < next_version m"
  unfolding next_version_def
  using fold_max_ge_elem [of "version v" "map version (versions m)" 0] by auto

lemma next_version_Max:
  "versions m \<noteq> [] \<Longrightarrow> next_version m = Max (version ` set (versions m)) + 1"
proof -
  assume ne: "versions m \<noteq> []"
  then obtain x xs where xs: "map version (versions m) = x # xs"
    by (cases "versions m") auto
  have "fold max (x # xs) 0 = fold max xs x" by simp
  also have "\<dots> = Max (set (x # xs))" by (rule Max.set_eq_fold [symmetric])
  finally have "fold max (map version (versions m)) 0 = Max (set (map version (versions m)))"
    by (simp only: xs)
  then show ?thesis
    by (simp add: next_version_def)
qed

lemma versions_create:
  "map version (versions (snd (create_version now p m))) = map version (versions m) @ [next_version m]"
  by (simp add: create_version_def Let_def)

lemma fst_create: "fst (create_version now p m) = next_version m"
  by (simp add: create_version_def Let_def)

lemma fst_retrain: "fst (retrain now p m) = next_version m"
  by (simp add: retrain_def fst_create split: option.splits)

lemma versions_retrain:
  "map version (versions (snd (retrain now p m))) = map version (versions m) @ [next_version m]"
  by (simp add: retrain_def versions_create split: option.splits)

lemma versions_set_active: "map version (versions (set_active n m)) = map version (versions m)"
  by (simp add: set_active_def comp_def)

lemma versions_finish:
  "finish_training n ok m = Inr m' \<Longrightarrow> map version (versions m') = map version (versions m)"
  by (auto simp: finish_training_def Let_def versions_set_active comp_def
      split: option.splits if_splits intro!: map_cong [OF refl])

lemma versions_activate:
  "activate n m = Inr m' \<Longrightarrow> map version (versions m') = map version (versions m)"
  by (auto simp: activate_def versions_set_active split: option.splits)

lemma versions_delete:
  "delete_version n m = Inr m' \<Longrightarrow> map version (versions m') = map version (versions m)"
  by (auto simp: delete_version_def comp_def split: option.splits if_splits intro!: map_cong [OF refl])

lemma versions_exec:
  "map version (versions (exec c m)) =
     map version (versions m) @ (if allocating c then [next_version m] else [])"
  by (cases c)
     (auto simp: exec_def versions_create versions_retrain
        dest: versions_finish versions_activate versions_delete split: sum.splits)


lemma allocated_gt:
  "n \<in> set (allocated cs m) \<Longrightarrow> k \<in> set (map version (versions m)) \<Longrightarrow> k < n"
proof (induction cs m arbitrary: n rule: allocated.induct)
  case (1 m)
  then show ?case by simp
next
  case (2 now p cs m)
  from "2.prems" next_version_gt [of _ m] have kn: "k < next_version m" by auto
  show ?case
  proof (cases "n = next_version m")
    case True
    with kn show ?thesis by simp
  next
    case False
    with "2.prems" have "n \<in> set (allocated cs (exec (Create now p) m))" by simp
    moreover have "k \<in> set (map version (versions (exec (Create now p) m)))"
      using "2.prems"(2) by (simp add: versions_exec)
    ultimately show ?thesis by (rule "2.IH")
  qed
next
  case (3 now p cs m)
  from "3.prems" next_version_gt [of _ m] have kn: "k < next_version m" by auto
  show ?case
  proof (cases "n = next_version m")
    case True
    with kn show ?thesis by simp
  next
    case False
    with "3.prems" have "n \<in> set (allocated cs (exec (Retrain now p) m))" by simp
    moreover have "k \<in> set (map version (versions (exec (Retrain now p) m)))"
      using "3.prems"(2) by (simp add: versions_exec)
    ultimately show ?thesis by (rule "3.IH")
  qed
qed (simp_all add: versions_exec)

lemma allocated_sorted: "sorted_wrt (<) (allocated cs m)"
proof (induction cs m rule: allocated.induct)
  case (2 now p cs m)
  have "next_version m \<in> set (map version (versions (exec (Create now p) m)))"
    by (simp add: versions_exec)
  then have "\<forall>n\<in>set (allocated cs (exec (Create now p) m)). next_version m < n"
    using allocated_gt by blast
  with 2 show ?case by simp
next
  case (3 now p cs m)
  have "next_version m \<in> set (map version (versions (exec (Retrain now p) m)))"
    by (simp add: versions_exec)
  then have "\<forall>n\<in>set (allocated cs (exec (Retrain now p) m)). next_version m < n"
    using allocated_gt by blast
  with 3 show ?case by simp
qed simp_all

text \<open>
  C5. The numbers that any sequence of operations allocates, from any model, are strictly
  increasing, and each is greater than the number of every version the model has had,
  the deleted ones too: no number is used twice. \<open>createVersion\<close> and \<open>retrain\<close> allocate
  \<open>next_version\<close>, which is 1 for a model without versions and the maximum plus 1
  otherwise.
\<close>

theorem version_numbers_increase:
  "sorted_wrt (<) (allocated cs m)
   \<and> (\<forall>n\<in>set (allocated cs m). \<forall>v\<in>set (versions m). version v < n)
   \<and> fst (create_version now p m) = next_version m
   \<and> fst (retrain now p m) = next_version m
   \<and> next_version empty_model = 1
   \<and> (versions m \<noteq> [] \<longrightarrow> next_version m = Max (version ` set (versions m)) + 1)"
proof -
  have "\<forall>n\<in>set (allocated cs m). \<forall>v\<in>set (versions m). version v < n"
    using allocated_gt [of _ cs m] by auto
  moreover have "next_version empty_model = 1"
    by (simp add: next_version_def empty_model_def)
  ultimately show ?thesis
    using allocated_sorted next_version_Max fst_create fst_retrain by blast
qed


theorem version_numbers_increase_witness:
  "allocated managing_ops empty_model = [1, 2, 3, 4]
   \<and> sorted_wrt (<) (allocated managing_ops empty_model)
   \<and> versions (run scenario_ops empty_model) \<noteq> []
   \<and> next_version (run scenario_ops empty_model)
       = Max (version ` set (versions (run scenario_ops empty_model))) + 1"
proof -
  have a: "allocated managing_ops empty_model = [1, 2, 3, 4]"
    by code_simp
  have b: "versions (run scenario_ops empty_model) \<noteq> []"
    by code_simp
  from version_numbers_increase [of managing_ops empty_model 0 no_params]
  have c: "sorted_wrt (<) (allocated managing_ops empty_model)"
    by blast
  from b version_numbers_increase [of "[]" "run scenario_ops empty_model" 0 no_params]
  have d: "next_version (run scenario_ops empty_model)
       = Max (version ` set (versions (run scenario_ops empty_model))) + 1"
    by blast
  from a c b d show ?thesis by blast
qed

subsection \<open>The active version\<close>

lemma distinct_filter_le1:
  "distinct (map f xs) \<Longrightarrow> length (filter (\<lambda>x. f x = a \<and> P x) xs) \<le> 1"
proof (induction xs)
  case Nil
  then show ?case by simp
next
  case (Cons x xs)
  show ?case
  proof (cases "f x = a")
    case True
    with Cons.prems have "a \<notin> f ` set xs" by simp
    then have "\<forall>y\<in>set xs. f y \<noteq> a" by blast
    then have "filter (\<lambda>x. f x = a \<and> P x) xs = []" by (auto simp: filter_empty_conv)
    then show ?thesis by simp
  next
    case False
    with Cons show ?thesis by simp
  qed
qed

lemma one_active_set_active:
  "distinct (map version (versions m)) \<Longrightarrow> at_most_one_active (set_active n m)"
proof -
  assume d: "distinct (map version (versions m))"
  have "filter (\<lambda>v. active v \<and> live v) (versions (set_active n m))
        = map (\<lambda>v. v\<lparr>active := (version v = n \<and> live v)\<rparr>)
            (filter (\<lambda>v. version v = n \<and> live v) (versions m))"
    by (auto simp: set_active_def filter_map comp_def live_def intro!: arg_cong [where f = "map _"] filter_cong)
  then show ?thesis
    using distinct_filter_le1 [OF d, of n live] by (simp add: at_most_one_active_def)
qed

lemma active_filter_status_update:
  "filter (\<lambda>v. active v \<and> live v) (map (\<lambda>x. if Q x then x\<lparr>status := s\<rparr> else x) vs)
   = map (\<lambda>x. if Q x then x\<lparr>status := s\<rparr> else x) (filter (\<lambda>v. active v \<and> live v) vs)"
  by (induction vs) (auto simp: live_def)

lemma wf_create: "wf_model m \<Longrightarrow> wf_model (snd (create_version now p m))"
proof -
  assume w: "wf_model m"
  have "next_version m \<notin> set (map version (versions m))"
    using next_version_gt by fastforce
  with w have "distinct (map version (versions (snd (create_version now p m))))"
    by (simp add: versions_create wf_model_def)
  moreover have "at_most_one_active (snd (create_version now p m))"
    using w by (simp add: wf_model_def at_most_one_active_def create_version_def Let_def)
  ultimately show ?thesis by (simp add: wf_model_def)
qed

lemma wf_retrain: "wf_model m \<Longrightarrow> wf_model (snd (retrain now p m))"
  by (simp add: retrain_def wf_create split: option.splits)

lemma wf_set_active:
  "distinct (map version (versions m)) \<Longrightarrow> wf_model (set_active n m)"
  by (simp add: wf_model_def one_active_set_active versions_set_active)

lemma wf_finish: "wf_model m \<Longrightarrow> finish_training n ok m = Inr m' \<Longrightarrow> wf_model m'"
proof -
  assume w: "wf_model m" and f: "finish_training n ok m = Inr m'"
  have d: "distinct (map version (versions m'))"
    using w versions_finish [OF f] by (simp add: wf_model_def)
  from f obtain v where v: "find_version n m = Some v" "status v = Generating"
    by (auto simp: finish_training_def split: option.splits if_splits)
  define m1 where "m1 = m\<lparr>versions := map (\<lambda>x. if version x = n \<and> live x
                                                then x\<lparr>status := (if ok then Complete else Error)\<rparr>
                                                else x) (versions m)\<rparr>"
  have m': "m' = (if ok \<and> activate_on_complete v then set_active n m1 else m1)"
    using f v unfolding finish_training_def m1_def Let_def by auto
  have d1: "distinct (map version (versions m1))"
  proof -
    have "map version (versions m1) = map version (versions m)"
      by (auto simp: m1_def comp_def intro!: map_cong [OF refl])
    with w show ?thesis by (simp add: wf_model_def)
  qed
  have a1: "at_most_one_active m1"
    using w by (simp add: wf_model_def at_most_one_active_def m1_def active_filter_status_update)
  show ?thesis
  proof (cases "ok \<and> activate_on_complete v")
    case True
    then show ?thesis using m' wf_set_active [OF d1] by simp
  next
    case False
    then have "m' = m1" using m' by auto
    then show ?thesis using d1 a1 by (simp add: wf_model_def)
  qed
qed

lemma wf_activate: "wf_model m \<Longrightarrow> activate n m = Inr m' \<Longrightarrow> wf_model m'"
proof -
  assume w: "wf_model m" and f: "activate n m = Inr m'"
  from f have "m' = set_active n m"
    by (auto simp: activate_def split: option.splits)
  moreover from w have "distinct (map version (versions m))"
    by (simp add: wf_model_def)
  ultimately show ?thesis by (simp add: wf_set_active)
qed

lemma filter_delete_le:
  "length (filter (\<lambda>v. active v \<and> live v) (map (\<lambda>x. if version x = n then x\<lparr>deleted := True\<rparr> else x) vs))
   \<le> length (filter (\<lambda>v. active v \<and> live v) vs)"
  by (induction vs) (auto simp: live_def)

lemma wf_delete: "wf_model m \<Longrightarrow> delete_version n m = Inr m' \<Longrightarrow> wf_model m'"
proof -
  assume w: "wf_model m" and f: "delete_version n m = Inr m'"
  have d: "distinct (map version (versions m'))"
    using w versions_delete [OF f] by (simp add: wf_model_def)
  have m': "m' = m\<lparr>versions := map (\<lambda>x. if version x = n then x\<lparr>deleted := True\<rparr> else x) (versions m)\<rparr>"
    using f by (auto simp: delete_version_def split: if_splits option.splits)
  have "at_most_one_active m'"
    using w filter_delete_le [of n "versions m"]
    by (simp add: wf_model_def at_most_one_active_def m')
  with d show ?thesis by (simp add: wf_model_def)
qed

lemma wf_step: "wf_model m \<Longrightarrow> step c m = Inr m' \<Longrightarrow> wf_model m'"
proof (cases c)
  case (Create now p)
  then show "wf_model m \<Longrightarrow> step c m = Inr m' \<Longrightarrow> wf_model m'"
    using wf_create [of m now p] by auto
next
  case (Retrain now p)
  then show "wf_model m \<Longrightarrow> step c m = Inr m' \<Longrightarrow> wf_model m'"
    using wf_retrain [of m now p] by auto
next
  case (Finish n ok)
  then show "wf_model m \<Longrightarrow> step c m = Inr m' \<Longrightarrow> wf_model m'"
    using wf_finish [of m n ok m'] by simp
next
  case (Activate n)
  then show "wf_model m \<Longrightarrow> step c m = Inr m' \<Longrightarrow> wf_model m'"
    using wf_activate [of m n m'] by simp
next
  case (Delete n)
  then show "wf_model m \<Longrightarrow> step c m = Inr m' \<Longrightarrow> wf_model m'"
    using wf_delete [of m n m'] by simp
qed

lemma wf_exec: "wf_model m \<Longrightarrow> wf_model (exec c m)"
proof (cases "step c m")
  case (Inl e)
  then show "wf_model m \<Longrightarrow> wf_model (exec c m)" by (simp add: exec_def)
next
  case (Inr m')
  then show "wf_model m \<Longrightarrow> wf_model (exec c m)"
    using wf_step [of m c m'] by (simp add: exec_def)
qed

lemma wf_run: "wf_model m \<Longrightarrow> wf_model (run cs m)"
  unfolding run_def by (induction cs arbitrary: m) (simp_all add: wf_exec)

lemma wf_empty: "wf_model empty_model"
  by (simp add: wf_model_def empty_model_def at_most_one_active_def)


lemma find_none_append: "\<forall>x\<in>set xs. \<not> Q x \<Longrightarrow> find Q (xs @ ys) = find Q ys"
  by (induction xs) auto

lemma find_keep_append: "\<forall>y\<in>set ys. \<not> Q y \<Longrightarrow> find Q (xs @ ys) = find Q xs"
  by (induction xs) (auto simp: find_None_iff)

lemma active_id_status_update:
  "map_option version (find (\<lambda>v. active v \<and> live v)
      (map (\<lambda>x. if Q x then x\<lparr>status := s\<rparr> else x) vs))
   = map_option version (find (\<lambda>v. active v \<and> live v) vs)"
  by (induction vs) (auto simp: live_def)

lemma active_id_delete:
  "map_option version (find (\<lambda>v. active v \<and> live v) vs) \<noteq> Some n \<Longrightarrow>
   map_option version (find (\<lambda>v. active v \<and> live v)
      (map (\<lambda>x. if version x = n then x\<lparr>deleted := True\<rparr> else x) vs))
   = map_option version (find (\<lambda>v. active v \<and> live v) vs)"
  by (induction vs) (auto simp: live_def)

lemma active_id_create:
  "active_version_id (snd (create_version now p m)) = active_version_id m"
  by (simp add: active_version_id_def active_version_def create_version_def Let_def
      find_keep_append)

lemma active_id_retrain:
  "active_version_id (snd (retrain now p m)) = active_version_id m"
  by (simp add: retrain_def active_id_create split: option.splits)

lemma active_id_finish:
  assumes "finish_training n ok m = Inr m'" and "\<not> activating (Finish n ok) m"
  shows "active_version_id m' = active_version_id m"
proof -
  from assms(1) obtain v where v: "find_version n m = Some v" "status v = Generating"
    by (auto simp: finish_training_def split: option.splits if_splits)
  with assms(2) have na: "\<not> (ok \<and> activate_on_complete v)"
    by (auto simp: activating_def)
  with assms(1) v have
    "m' = m\<lparr>versions := map (\<lambda>x. if version x = n \<and> live x
                                  then x\<lparr>status := (if ok then Complete else Error)\<rparr>
                                  else x) (versions m)\<rparr>"
    unfolding finish_training_def Let_def by auto
  then show ?thesis
    by (simp add: active_version_id_def active_version_def active_id_status_update)
qed

lemma active_id_delete_version:
  assumes "delete_version n m = Inr m'"
  shows "active_version_id m' = active_version_id m"
proof -
  from assms have ne: "active_version_id m \<noteq> Some n"
    by (auto simp: delete_version_def split: if_splits)
  from assms have
    "m' = m\<lparr>versions := map (\<lambda>x. if version x = n then x\<lparr>deleted := True\<rparr> else x) (versions m)\<rparr>"
    by (auto simp: delete_version_def split: if_splits option.splits)
  then show ?thesis
    using ne active_id_delete [of "versions m" n]
    by (simp add: active_version_id_def active_version_def)
qed

lemma active_id_exec:
  assumes "\<not> activating c m"
  shows "active_version_id (exec c m) = active_version_id m"
proof (cases "step c m")
  case (Inl e)
  then show ?thesis by (simp add: exec_def)
next
  case (Inr m')
  then have e: "exec c m = m'" by (simp add: exec_def)
  show ?thesis
  proof (cases c)
    case (Create now p)
    with Inr e show ?thesis using active_id_create [of now p m] by auto
  next
    case (Retrain now p)
    with Inr e show ?thesis using active_id_retrain [of now p m] by auto
  next
    case (Finish n ok)
    with Inr e assms show ?thesis using active_id_finish [of n ok m m'] by simp
  next
    case (Activate n)
    with assms show ?thesis by (simp add: activating_def)
  next
    case (Delete n)
    with Inr e show ?thesis using active_id_delete_version [of n m m'] by simp
  qed
qed

text \<open>
  C1, as amended. After any sequence of operations on a new model, at most one non-deleted
  version is marked active. An operation changes the active version only when it is an
  explicit activation or the successful end of the training of a version that was created
  or retrained without \<open>active = false\<close>; creating, retraining, deleting and a failed
  training never change it.
\<close>

theorem one_active_version:
  "at_most_one_active (run cs empty_model)
   \<and> (activating c m \<or> active_version_id (exec c m) = active_version_id m)"
proof -
  have "wf_model (run cs empty_model)"
    by (rule wf_run [OF wf_empty])
  then have "at_most_one_active (run cs empty_model)"
    by (simp add: wf_model_def)
  then show ?thesis
    using active_id_exec [of c m] by blast
qed

theorem one_active_version_witness:
  "at_most_one_active (run managing_ops empty_model)
   \<and> active_version_id (exec (Delete 2) (run (scenario_ops @ [Activate 1]) empty_model))
       = active_version_id (run (scenario_ops @ [Activate 1]) empty_model)"
proof -
  have n: "\<not> activating (Delete 2) (run (scenario_ops @ [Activate 1]) empty_model)"
    by (simp add: activating_def)
  from one_active_version [of managing_ops "Delete 2" "run (scenario_ops @ [Activate 1]) empty_model"] n
  show ?thesis by blast
qed

text \<open>
  C1, as stated, fails: after version 1 is complete and active and a retrain has created
  version 2, the end of the training of version 2 makes version 2 active, and no
  activation was issued.
\<close>

theorem active_changes_on_completion:
  "\<not> changes_only_by_activate (Finish 2 True) (run (take 3 scenario_ops) empty_model)"
  by code_simp

end
